theory Spec2Isabelle
  imports Main
begin

section \<open>JavaScript strings\<close>

text \<open>
  A JavaScript string is a sequence of UTF-16 code units. The model uses \<open>string\<close>
  (a list of \<open>char\<close>), read as the code units \<open>0..255\<close>: ASCII and the Latin-1
  supplement. Entity files outside that range are not covered by the model.
\<close>

definition is_space :: "char \<Rightarrow> bool" where
  \<comment> \<open>WhiteSpace and LineTerminator code units below 256: TAB, LF, VT, FF, CR, SP, NBSP.
      Both \<open>String.prototype.trim\<close> and the class \<open>\s\<close> use this set.\<close>
  "is_space c = (of_char c \<in> {9, 10, 11, 12, 13, 32, 160 :: nat})"

definition trim :: "string \<Rightarrow> string" where
  "trim s = rev (dropWhile is_space (rev (dropWhile is_space s)))"

fun split_nl :: "string \<Rightarrow> string list" where
  \<comment> \<open>\<open>s.split('\n')\<close>: one more piece than there are line feeds.\<close>
  "split_nl [] = [[]]"
| "split_nl (c # cs) =
     (if c = CHR ''\<newline>'' then [] # split_nl cs
      else (case split_nl cs of [] \<Rightarrow> [[c]] | l # ls \<Rightarrow> (c # l) # ls))"

definition includes_char :: "string \<Rightarrow> char \<Rightarrow> bool" where
  \<comment> \<open>\<open>s.includes(c)\<close> for a one-character search string.\<close>
  "includes_char s c = (c \<in> set s)"

definition toLowerCase :: "char \<Rightarrow> char" where
  \<comment> \<open>\<open>toLowerCase\<close> on one code unit below 256: \<open>A..Z\<close> and the Latin-1 capitals
      \<open>0xC0..0xDE\<close> (without the multiplication sign \<open>0xD7\<close>) move up by 32.\<close>
  "toLowerCase c =
     (let n = (of_char c :: nat)
      in if (65 \<le> n \<and> n \<le> 90) \<or> (192 \<le> n \<and> n \<le> 222 \<and> n \<noteq> 215)
         then char_of (n + 32) else c)"

definition lowerFirst :: "string \<Rightarrow> string" where
  \<comment> \<open>\<open>target.charAt(0).toLowerCase() + target.slice(1)\<close>\<close>
  "lowerFirst target = (case target of [] \<Rightarrow> [] | c # cs \<Rightarrow> toLowerCase c # cs)"

section \<open>Regular expressions with backtracking\<close>

text \<open>
  The regular expressions of the generator use literals, character classes, sequence,
  alternation, the greedy quantifiers \<open>?\<close>, \<open>*\<close>, \<open>+\<close>, capture groups and the
  end-of-input assertion. \<open>ms\<close> is the backtracking matcher of ECMAScript as a list of
  successes: every way the expression can match a prefix of the input, in the order in
  which the backtracking search tries them (left alternative first, longest repetition
  first). Each success is the rest of the input and the captures so far, the latest
  first: a capture is the group's number and the text its body consumed.
\<close>

datatype citem = Single char | Range char char | WhiteSpace

datatype rx =
    Lit string
  | Cls bool "citem list"
  | Seq rx rx
  | Alt rx rx
  | Opt rx
  | Star rx
  | Grp nat rx
  | Eoi

definition Plus :: "rx \<Rightarrow> rx" where
  \<comment> \<open>\<open>r+\<close> is \<open>rr*\<close>\<close>
  "Plus r = Seq r (Star r)"

type_synonym caps = "(nat \<times> string) list"

fun in_item :: "char \<Rightarrow> citem \<Rightarrow> bool" where
  "in_item c (Single d) = (c = d)"
| "in_item c (Range lo hi) =
     ((of_char lo :: nat) \<le> of_char c \<and> (of_char c :: nat) \<le> of_char hi)"
| "in_item c WhiteSpace = is_space c"

definition in_class :: "bool \<Rightarrow> citem list \<Rightarrow> char \<Rightarrow> bool" where
  \<comment> \<open>\<open>[...]\<close> when the flag is False, \<open>[^...]\<close> when it is True\<close>
  "in_class neg items c = (list_ex (in_item c) items \<noteq> neg)"

definition canon :: "char \<Rightarrow> char" where
  \<comment> \<open>Canonicalize of the \<open>i\<close> flag (without \<open>u\<close>): the upper case of the code unit.
      Only \<open>a..z\<close> is mapped: below 256 no other code unit has an ASCII letter as its
      canonical form, and the \<open>i\<close> expressions of the generator hold ASCII letters only.\<close>
  "canon c =
     (let n = (of_char c :: nat)
      in if 97 \<le> n \<and> n \<le> 122 then char_of (n - 32) else c)"

fun lit_match :: "bool \<Rightarrow> string \<Rightarrow> string \<Rightarrow> string option" where
  "lit_match ic [] s = Some s"
| "lit_match ic (p # ps) [] = None"
| "lit_match ic (p # ps) (c # cs) =
     (if (if ic then canon p = canon c else p = c) then lit_match ic ps cs else None)"

function ms :: "bool \<Rightarrow> rx \<Rightarrow> string \<times> caps \<Rightarrow> (string \<times> caps) list" where
  "ms ic (Lit w) (s, k) = (case lit_match ic w s of None \<Rightarrow> [] | Some r \<Rightarrow> [(r, k)])"
| "ms ic (Cls neg items) (s, k) =
     (case s of [] \<Rightarrow> [] | c # cs \<Rightarrow> if in_class neg items c then [(cs, k)] else [])"
| "ms ic (Seq a b) (s, k) = concat (map (ms ic b) (ms ic a (s, k)))"
| "ms ic (Alt a b) (s, k) = ms ic a (s, k) @ ms ic b (s, k)"
| "ms ic (Opt a) (s, k) =
     filter (\<lambda>st. length (fst st) < length s) (ms ic a (s, k)) @ [(s, k)]"
| "ms ic (Star a) (s, k) =
     concat (map (\<lambda>st. if length (fst st) < length s then ms ic (Star a) st else [])
                 (ms ic a (s, k))) @ [(s, k)]"
| "ms ic (Grp n a) (s, k) =
     map (\<lambda>st. (fst st, (n, take (length s - length (fst st)) s) # snd st))
         (ms ic a (s, k))"
| "ms ic Eoi (s, k) = (if s = [] then [(s, k)] else [])"
  by pat_completeness auto
termination
  by (relation "measures [\<lambda>(ic, r, s, k). size r, \<lambda>(ic, r, s, k). length s]") auto

text \<open>
  In the \<open>Opt\<close> and \<open>Star\<close> equations an iteration that consumed nothing is dropped,
  as the empty check of ECMAScript's RepeatMatcher does. A capture group under a
  quantifier would be reset at every iteration, and a character class under the \<open>i\<close>
  flag would compare canonical forms; no expression of the generator has either.

  \<open>match\<close> is \<open>String.prototype.match\<close> with a regular expression without the \<open>g\<close>
  flag: the first success at the leftmost start position. None of the expressions looks
  behind the start position, so starting later is matching a suffix.
\<close>

fun match :: "bool \<Rightarrow> rx \<Rightarrow> string \<Rightarrow> caps option" where
  "match ic r s =
     (case ms ic r (s, []) of
        st # _ \<Rightarrow> Some (snd st)
      | [] \<Rightarrow> (case s of [] \<Rightarrow> None | c # cs \<Rightarrow> match ic r cs))"

definition test :: "bool \<Rightarrow> rx \<Rightarrow> string \<Rightarrow> bool" where
  \<comment> \<open>\<open>RegExp.prototype.test\<close>\<close>
  "test ic r s = (match ic r s \<noteq> None)"

definition seqs :: "rx list \<Rightarrow> rx \<Rightarrow> rx" where
  "seqs rs r = foldr Seq rs r"

definition alts :: "rx list \<Rightarrow> rx \<Rightarrow> rx" where
  "alts rs r = foldr Alt rs r"

definition space :: rx where
  \<comment> \<open>\<open>\s\<close>\<close>
  "space = Cls False [WhiteSpace]"

definition word_chars :: "citem list" where
  "word_chars = [Range CHR ''A'' CHR ''Z'', Range CHR ''a'' CHR ''z'',
                 Range CHR ''0'' CHR ''9'', Single CHR ''_'']"

definition word :: rx where
  \<comment> \<open>\<open>[A-Za-z0-9_]\<close> (the property pattern writes the same class as \<open>[a-zA-Z0-9_]\<close>)\<close>
  "word = Cls False word_chars"

definition rel_rx :: rx where
  \<comment> \<open>\<open>/@(ManyToOne|OneToMany|ManyToMany|OneToOne)\s*\(\s*\(\)\s*=>\s*([A-Za-z0-9_]+)\s*[,)]/\<close>\<close>
  "rel_rx = seqs
     [Lit ''@'',
      Grp 1 (alts [Lit ''ManyToOne'', Lit ''OneToMany'', Lit ''ManyToMany''] (Lit ''OneToOne'')),
      Star space, Lit ''('', Star space, Lit ''()'', Star space, Lit ''=>'', Star space,
      Grp 2 (Plus word), Star space]
     (Cls False [Single CHR '','', Single CHR '')''])"

definition prop_rx :: rx where
  \<comment> \<open>\<open>/(?:public\s+|protected\s+|private\s+)?([a-zA-Z0-9_]+)\??:\s*([^;\n]+);/\<close>\<close>
  "prop_rx = seqs
     [Opt (alts [Seq (Lit ''public'') (Plus space), Seq (Lit ''protected'') (Plus space)]
                (Seq (Lit ''private'') (Plus space))),
      Grp 1 (Plus word), Opt (Lit ''?''), Lit '':'', Star space,
      Grp 2 (Plus (Cls True [Single CHR '';'', Single CHR ''\<newline>'']))]
     (Lit '';'')"

definition string_rx :: rx where
  \<comment> \<open>\<open>/string|varchar|text/i\<close>\<close>
  "string_rx = alts [Lit ''string'', Lit ''varchar''] (Lit ''text'')"

definition number_rx :: rx where
  \<comment> \<open>\<open>/number|int|decimal|float|double|numeric|smallint|bigint/i\<close>\<close>
  "number_rx = alts [Lit ''number'', Lit ''int'', Lit ''decimal'', Lit ''float'', Lit ''double'',
                     Lit ''numeric'', Lit ''smallint''] (Lit ''bigint'')"

definition boolean_rx :: rx where
  \<comment> \<open>\<open>/boolean|true|false/i\<close>\<close>
  "boolean_rx = alts [Lit ''boolean'', Lit ''true''] (Lit ''false'')"

definition date_rx :: rx where
  \<comment> \<open>\<open>/Date|datetime|timestamp/i\<close>\<close>
  "date_rx = alts [Lit ''Date'', Lit ''datetime''] (Lit ''timestamp'')"

definition brackets_rx :: rx where
  \<comment> \<open>\<open>/\[\]$/\<close>\<close>
  "brackets_rx = Seq (Lit ''[]'') Eoi"

definition array_rx :: rx where
  \<comment> \<open>the literal \<open>Array\<close> and the character \<open><\<close> (escaped in the source), without flags\<close>
  "array_rx = Lit ''Array<''"

section \<open>The field extractor\<close>

record property =
  name :: string
  type :: string
  isOptional :: bool
  isArray :: bool
  isRelation :: bool

text \<open>
  A capture group that took no part in the match reads as \<open>undefined\<close>. The source uses
  the four groups as strings (\<open>charAt\<close>, \<open>trim\<close>, comparison, a template), and calling
  a method of \<open>undefined\<close> throws a TypeError. The model stops with \<open>Undefined n\<close> wherever
  group \<open>n\<close> is read and is undefined, so a run of the model without an error is a run of
  the source without an exception.
\<close>

datatype error = Undefined nat

definition group :: "caps \<Rightarrow> nat \<Rightarrow> error + string" where
  "group k n = (case map_of k n of None \<Rightarrow> Inl (Undefined n) | Some v \<Rightarrow> Inr v)"

definition relationField :: "string \<Rightarrow> error + property option" where
  "relationField line =
     (case match False rel_rx line of
        None \<Rightarrow> Inr None
      | Some relMatch \<Rightarrow>
          (case group relMatch 1 of Inl e \<Rightarrow> Inl e | Inr type' \<Rightarrow>
          (case group relMatch 2 of Inl e \<Rightarrow> Inl e | Inr target \<Rightarrow>
             if type' = ''ManyToOne'' \<or> type' = ''OneToOne'' then
               Inr (Some \<lparr>name = lowerFirst target @ ''Id'', type = ''number'',
                          isOptional = False, isArray = False, isRelation = True\<rparr>)
             else if type' = ''OneToMany'' \<or> type' = ''ManyToMany'' then
               Inr (Some \<lparr>name = lowerFirst target @ ''Ids'', type = ''number'',
                          isOptional = False, isArray = True, isRelation = True\<rparr>)
             else Inr None)))"

definition canonicalType :: "string \<Rightarrow> string" where
  \<comment> \<open>the chain of tests on the trimmed second group, lines 79 to 84\<close>
  "canonicalType t =
     (if test True string_rx t then ''string''
      else if test True number_rx t then ''number''
      else if test True boolean_rx t then ''boolean''
      else if test True date_rx t then ''Date''
      else if test False brackets_rx t \<or> test False array_rx t then ''array''
      else ''any'')"

definition propField :: "string \<Rightarrow> error + property option" where
  \<comment> \<open>the second half of the loop body: the plain property pattern on the trimmed line\<close>
  "propField line =
     (case match False prop_rx line of
        None \<Rightarrow> Inr None
      | Some propMatch \<Rightarrow>
          (case group propMatch 1 of Inl e \<Rightarrow> Inl e | Inr name' \<Rightarrow>
          (case group propMatch 2 of Inl e \<Rightarrow> Inl e | Inr raw \<Rightarrow>
             let type' = canonicalType (trim raw);
                 isOptional' = includes_char line CHR ''?''
             in Inr (Some \<lparr>name = name', type = type', isOptional = isOptional',
                           isArray = (type' = ''array''), isRelation = False\<rparr>))))"

definition lineField :: "string \<Rightarrow> error + property option" where
  \<comment> \<open>the loop body on a trimmed line: what it pushes, if anything\<close>
  "lineField line =
     (case relationField line of
        Inl e \<Rightarrow> Inl e
      | Inr (Some rel) \<Rightarrow> Inr (Some rel)
      | Inr None \<Rightarrow> propField line)"

fun parseLoop :: "string list \<Rightarrow> property list \<Rightarrow> error + property list" where
  \<comment> \<open>the \<open>for\<close> loop over the lines, with \<open>props\<close> as its state\<close>
  "parseLoop [] props = Inr props"
| "parseLoop (l # ls) props =
     (case lineField (trim l) of
        Inl e \<Rightarrow> Inl e
      | Inr (Some p) \<Rightarrow> parseLoop ls (props @ [p])
      | Inr None \<Rightarrow> parseLoop ls props)"

definition parseProps :: "string \<Rightarrow> error + property list" where
  "parseProps entityContent = parseLoop (split_nl entityContent) []"

section \<open>The field mapper\<close>

text \<open>
  The callback of \<open>props.forEach\<close> pushes decorator lines and validator lines for one
  property and appends them to \<open>dtoContent\<close>. The model keeps each pushed line as a
  value that names its decorator and the property name inside its message;
  \<open>render_decorator\<close> and \<open>render_validator\<close> give the text of the line.
\<close>

datatype decorator = ApiPropertyOptional string | ApiProperty string

datatype validator =
    IsOptional
  | IsNotEmpty string
  | IsString string
  | IsNumber string
  | IsPositive string
  | IsBoolean string
  | IsDate string
  | IsArray string
  | Type_Number

definition decorators :: "property \<Rightarrow> decorator list" where
  "decorators prop =
     (if isOptional prop then [ApiPropertyOptional (name prop)] else [ApiProperty (name prop)])"

definition validators :: "property \<Rightarrow> validator list" where
  "validators prop =
     (if isOptional prop then [IsOptional] else [IsNotEmpty (name prop)])
     @ (if type prop = ''string'' then [IsString (name prop)]
        else if type prop = ''number'' then
          [IsNumber (name prop)]
          @ (if \<not> isOptional prop \<and> \<not> isArray prop then [IsPositive (name prop)] else [])
        else if type prop = ''boolean'' then [IsBoolean (name prop)]
        else if type prop = ''Date'' then [IsDate (name prop)]
        else if type prop = ''array'' then [IsArray (name prop)]
        else [])
     @ (if isRelation prop then [Type_Number] else [])"

definition quoted :: "string \<Rightarrow> string" where
  \<comment> \<open>a text between two apostrophes\<close>
  "quoted s = [CHR 0x27] @ s @ [CHR 0x27]"

fun render_decorator :: "decorator \<Rightarrow> string" where
  "render_decorator (ApiPropertyOptional n) =
     ''  @ApiPropertyOptional({ description: '' @ quoted (n @ '' field'') @ '' })''"
| "render_decorator (ApiProperty n) =
     ''  @ApiProperty({ description: '' @ quoted (n @ '' field'') @ '' })''"

fun render_validator :: "validator \<Rightarrow> string" where
  "render_validator IsOptional = ''  @IsOptional()''"
| "render_validator (IsNotEmpty n) =
     ''  @IsNotEmpty({ message: '' @ quoted (n @ '' should not be empty'') @ '' })''"
| "render_validator (IsString n) =
     ''  @IsString({ message: '' @ quoted (n @ '' should be a valid string'') @ '' })''"
| "render_validator (IsNumber n) =
     ''  @IsNumber({}, { message: '' @ quoted (n @ '' should be a valid number'') @ '' })''"
| "render_validator (IsPositive n) =
     ''  @IsPositive({ message: '' @ quoted (n @ '' should be a positive number'') @ '' })''"
| "render_validator (IsBoolean n) =
     ''  @IsBoolean({ message: '' @ quoted (n @ '' should be a valid boolean'') @ '' })''"
| "render_validator (IsDate n) =
     ''  @IsDate({ message: '' @ quoted (n @ '' should be a valid date'') @ '' })''"
| "render_validator (IsArray n) =
     ''  @IsArray({ message: '' @ quoted (n @ '' should be a valid array'') @ '' })''"
| "render_validator Type_Number = ''  @Type(() => Number)''"

definition forEach_prop :: "string \<Rightarrow> property \<Rightarrow> string" where
  \<comment> \<open>the callback of \<open>props.forEach\<close>: \<open>dtoContent\<close> before, \<open>dtoContent\<close> after\<close>
  "forEach_prop dtoContent prop =
     dtoContent
     @ concat (map (\<lambda>d. render_decorator d @ ''\<newline>'') (decorators prop))
     @ concat (map (\<lambda>v. render_validator v @ ''\<newline>'') (validators prop))
     @ ''  '' @ name prop @ '': '' @ type prop @ (if isArray prop then ''[]'' else [])
     @ '';\<newline>\<newline>''"

definition dtoContent :: "property list \<Rightarrow> string" where
  "dtoContent props = foldl forEach_prop [] props"

text \<open>
  The callback of \<open>entityFiles.forEach\<close> for one entity file, from the text of the file
  to what becomes of it: the warning and the early \<open>return\<close>, or the body of the create
  class that goes to the writer. File names, class names and the writing are left out.
\<close>

datatype outcome = Skipped | Generated string

definition forEach_entityFile :: "string \<Rightarrow> error + outcome" where
  "forEach_entityFile entityContent =
     (case parseProps entityContent of
        Inl e \<Rightarrow> Inl e
      | Inr props \<Rightarrow> Inr (if length props = 0 then Skipped else Generated (dtoContent props)))"

section \<open>The generator without validators\<close>

text \<open>
  \<open>bin/generate-dto.js\<close> is the second generator of the repository. Its loop uses the
  same two patterns in the same order; its \<open>relationField\<close> returns the name and the
  array flag only and the loop fills in the rest; a plain property keeps the declared
  type as it is written. Every field of its create class is optional: the lines of a
  field are \<open>@ApiPropertyOptional()\<close>, \<open>@IsOptional()\<close> and the declaration that
  \<open>mapType\<close> returns. The names of this section carry the suffix \<open>_basic\<close> or \<open>_b\<close>
  where the other generator has the same name.
\<close>

record basic_property =
  name_b :: string
  typeRaw :: string
  isRelation_b :: bool
  isArray_b :: bool

definition relationField_basic :: "string \<Rightarrow> error + (string \<times> bool) option" where
  "relationField_basic line =
     (case match False rel_rx line of
        None \<Rightarrow> Inr None
      | Some relMatch \<Rightarrow>
          (case group relMatch 1 of Inl e \<Rightarrow> Inl e | Inr type' \<Rightarrow>
          (case group relMatch 2 of Inl e \<Rightarrow> Inl e | Inr target \<Rightarrow>
             if type' = ''ManyToOne'' \<or> type' = ''OneToOne'' then
               Inr (Some (lowerFirst target @ ''Id'', False))
             else if type' = ''OneToMany'' \<or> type' = ''ManyToMany'' then
               Inr (Some (lowerFirst target @ ''Ids'', True))
             else Inr None)))"

definition lineField_basic :: "string \<Rightarrow> error + basic_property option" where
  "lineField_basic line =
     (case relationField_basic line of
        Inl e \<Rightarrow> Inl e
      | Inr (Some rel) \<Rightarrow>
          Inr (Some \<lparr>name_b = fst rel, typeRaw = [], isRelation_b = True, isArray_b = snd rel\<rparr>)
      | Inr None \<Rightarrow>
          (case match False prop_rx line of
             None \<Rightarrow> Inr None
           | Some propMatch \<Rightarrow>
               (case group propMatch 1 of Inl e \<Rightarrow> Inl e | Inr name' \<Rightarrow>
               (case group propMatch 2 of Inl e \<Rightarrow> Inl e | Inr raw \<Rightarrow>
                  Inr (Some \<lparr>name_b = name', typeRaw = trim raw, isRelation_b = False,
                             isArray_b = False\<rparr>)))))"

fun parseLoop_basic :: "string list \<Rightarrow> basic_property list \<Rightarrow> error + basic_property list" where
  "parseLoop_basic [] props = Inr props"
| "parseLoop_basic (l # ls) props =
     (case lineField_basic (trim l) of
        Inl e \<Rightarrow> Inl e
      | Inr (Some p) \<Rightarrow> parseLoop_basic ls (props @ [p])
      | Inr None \<Rightarrow> parseLoop_basic ls props)"

definition generic_rx :: rx where
  \<comment> \<open>\<open>/<.*>/\<close>: the dot is every code unit but the line terminators LF and CR\<close>
  "generic_rx = seqs [Lit ''<'', Star (Cls True [Single CHR ''\<newline>'', Single (char_of (13::nat))])]
                     (Lit ''>'')"

fun delete_first :: "rx \<Rightarrow> string \<Rightarrow> string" where
  \<comment> \<open>\<open>s.replace(r, '')\<close> without the \<open>g\<close> flag: the leftmost match is cut out\<close>
  "delete_first r s =
     (case ms False r (s, []) of
        st # _ \<Rightarrow> fst st
      | [] \<Rightarrow> (case s of [] \<Rightarrow> [] | c # cs \<Rightarrow> c # delete_first r cs))"

definition mapType :: "string \<Rightarrow> string \<Rightarrow> bool \<Rightarrow> bool \<Rightarrow> string" where
  "mapType typeRaw' propName isRelation' isArray' =
     (if isRelation' then
        (if isArray' then propName @ '': number[];'' else propName @ '': number;'')
      else
        let t = trim (delete_first generic_rx typeRaw')
        in if test True string_rx t then propName @ '': string;''
           else if test True number_rx t then propName @ '': number;''
           else if test True boolean_rx t then propName @ '': boolean;''
           else if test True date_rx t then propName @ '': string;''
           else if test False brackets_rx t \<or> test False array_rx typeRaw' then propName @ '': any[];''
           else propName @ '': any;'')"

fun join :: "string \<Rightarrow> string list \<Rightarrow> string" where
  \<comment> \<open>\<open>xs.join(sep)\<close>\<close>
  "join sep [] = []"
| "join sep [x] = x"
| "join sep (x # y # ys) = x @ sep @ join sep (y # ys)"

definition dtoLines :: "basic_property list \<Rightarrow> string list" where
  "dtoLines props =
     map (\<lambda>p. join ''\<newline>''
                [''  @ApiPropertyOptional()'', ''  @IsOptional()'',
                 ''  '' @ mapType (typeRaw p) (name_b p) (isRelation_b p) (isArray_b p)])
         props"

definition forEach_entityFile_basic :: "string \<Rightarrow> error + outcome" where
  "forEach_entityFile_basic entityContent =
     (case parseLoop_basic (split_nl entityContent) [] of
        Inl e \<Rightarrow> Inl e
      | Inr props \<Rightarrow>
          Inr (if length props = 0 then Skipped
               else Generated (join ''\<newline>\<newline>'' (dtoLines props))))"

section \<open>Notions used in the statements\<close>

text \<open>
  A trimmed line is matched when one of the two patterns matches it. \<open>fieldOf\<close> is the
  property the loop body pushes for a trimmed line, if it pushes one, and \<open>fieldSpecs\<close>
  is the extractor followed by the mapper: every property with its validator lines.
\<close>

definition matched :: "string \<Rightarrow> bool" where
  "matched line = (test False rel_rx line \<or> test False prop_rx line)"

definition fieldOf :: "string \<Rightarrow> property option" where
  "fieldOf line = (case lineField line of Inr (Some p) \<Rightarrow> Some p | _ \<Rightarrow> None)"

definition fieldSpecs :: "string \<Rightarrow> error + (property \<times> validator list) list" where
  "fieldSpecs entityContent =
     (case parseProps entityContent of
        Inl e \<Rightarrow> Inl e
      | Inr props \<Rightarrow> Inr (map (\<lambda>prop. (prop, validators prop)) props))"

fun is_presence :: "validator \<Rightarrow> bool" where
  "is_presence IsOptional = True"
| "is_presence (IsNotEmpty n) = True"
| "is_presence v = False"

text \<open>
  \<open>first_success r st\<close> is the success the backtracking search reaches first from the
  state \<open>st\<close>, and \<open>grps r\<close> are the capture groups that occur in \<open>r\<close>.
\<close>

definition first_success :: "rx \<Rightarrow> string \<times> caps \<Rightarrow> (string \<times> caps) option" where
  \<comment> \<open>without the \<open>i\<close> flag\<close>
  "first_success r st = (case ms False r st of [] \<Rightarrow> None | y # ys \<Rightarrow> Some y)"

fun grps :: "rx \<Rightarrow> nat set" where
  "grps (Lit w) = {}"
| "grps (Cls neg items) = {}"
| "grps (Seq a b) = grps a \<union> grps b"
| "grps (Alt a b) = grps a \<union> grps b"
| "grps (Opt a) = grps a"
| "grps (Star a) = grps a"
| "grps (Grp n a) = insert n (grps a)"
| "grps Eoi = {}"

section \<open>Properties of the matcher and of the loop\<close>

subsection \<open>Captures and totality\<close>

lemma ms_keep:
  "st' \<in> set (ms ic r st) \<Longrightarrow> n \<notin> grps r \<Longrightarrow> map_of (snd st') n = map_of (snd st) n"
proof (induction ic r st arbitrary: st' rule: ms.induct)
  case (1 ic w s k)
  then show ?case by (auto split: option.splits)
next
  case (2 ic neg items s k)
  then show ?case by (auto split: list.splits if_splits)
next
  case (3 ic a b s k)
  from 3(3) obtain m where m: "m \<in> set (ms ic a (s, k))" "st' \<in> set (ms ic b m)"
    by auto
  from 3(4) have "n \<notin> grps a" "n \<notin> grps b" by auto
  with 3(1)[OF m(1)] 3(2)[OF m(1) m(2)] show ?case by simp
next
  case (4 ic a b s k)
  from 4(3) have "st' \<in> set (ms ic a (s, k)) \<or> st' \<in> set (ms ic b (s, k))" by auto
  with 4(1)[of st'] 4(2)[of st'] 4(4) show ?case by auto
next
  case (5 ic a s k)
  from 5(2) have "st' \<in> set (ms ic a (s, k)) \<or> st' = (s, k)" by auto
  with 5(1)[of st'] 5(3) show ?case by auto
next
  case (6 ic a s k)
  from 6(4) have n: "n \<notin> grps a" "n \<notin> grps (Star a)" by auto
  from 6(3) consider "st' = (s, k)"
    | m where "m \<in> set (ms ic a (s, k))" "length (fst m) < length s"
        "st' \<in> set (ms ic (Star a) m)"
    by (auto split: if_splits)
  then show ?case
  proof cases
    case 1
    then show ?thesis by simp
  next
    case 2
    with 6(1)[OF 2(1) n(1)] 6(2)[OF 2(1) 2(2) 2(3) n(2)] show ?thesis by simp
  qed
next
  case (7 ic m a s k)
  from 7(2) obtain x where x: "x \<in> set (ms ic a (s, k))"
    "st' = (fst x, (m, take (length s - length (fst x)) s) # snd x)"
    by auto
  from 7(3) have "n \<noteq> m" "n \<notin> grps a" by auto
  with 7(1)[OF x(1)] x(2) show ?case by simp
next
  case (8 ic s k)
  then show ?case by (auto split: if_splits)
qed

lemma ms_length: "st' \<in> set (ms ic r st) \<Longrightarrow> length (fst st') \<le> length (fst st)"
proof (induction ic r st arbitrary: st' rule: ms.induct)
  case (1 ic w s k)
  have "lit_match ic w s = Some t \<Longrightarrow> length t \<le> length s" for t
    by (induction ic w s rule: lit_match.induct) (auto split: if_splits)
  with 1 show ?case by (auto split: option.splits)
next
  case (2 ic neg items s k)
  then show ?case by (auto split: list.splits if_splits)
next
  case (3 ic a b s k)
  from 3(3) obtain m where m: "m \<in> set (ms ic a (s, k))" "st' \<in> set (ms ic b m)"
    by auto
  with 3(1)[OF m(1)] 3(2)[OF m(1) m(2)] show ?case by simp
next
  case (4 ic a b s k)
  from 4(3) have "st' \<in> set (ms ic a (s, k)) \<or> st' \<in> set (ms ic b (s, k))" by auto
  with 4(1)[of st'] 4(2)[of st'] show ?case by auto
next
  case (5 ic a s k)
  from 5(2) have "st' \<in> set (ms ic a (s, k)) \<or> st' = (s, k)" by auto
  with 5(1)[of st'] show ?case by auto
next
  case (6 ic a s k)
  from 6(3) consider "st' = (s, k)"
    | m where "m \<in> set (ms ic a (s, k))" "length (fst m) < length s"
        "st' \<in> set (ms ic (Star a) m)"
    by (auto split: if_splits)
  then show ?case
  proof cases
    case 1
    then show ?thesis by simp
  next
    case 2
    with 6(2)[OF 2(1) 2(2) 2(3)] show ?thesis by simp
  qed
next
  case (7 ic m a s k)
  from 7(2) obtain x where x: "x \<in> set (ms ic a (s, k))"
    "st' = (fst x, (m, take (length s - length (fst x)) s) # snd x)"
    by auto
  with 7(1)[OF x(1)] show ?case by simp
next
  case (8 ic s k)
  then show ?case by (auto split: if_splits)
qed

lemma lit_match_append: "lit_match ic w s = Some r \<Longrightarrow> \<not> ic \<Longrightarrow> s = w @ r"
  by (induction ic w s rule: lit_match.induct) (auto split: if_splits)

lemma match_ms:
  "match ic r s = Some k \<Longrightarrow> \<exists>t st'. st' \<in> set (ms ic r (t, [])) \<and> snd st' = k"
proof (induction ic r s rule: match.induct)
  case (1 ic r s)
  show ?case
  proof (cases "ms ic r (s, [])")
    case Nil
    with 1 show ?thesis by (cases s) auto
  next
    case (Cons st sts)
    with 1(2) have "snd st = k" by simp
    with Cons show ?thesis by (metis list.set_intros(1))
  qed
qed

lemma ms_seqs_Grp:
  assumes "st' \<in> set (ms ic (seqs (rs1 @ Grp n g # rs2) r) st)" and "n \<notin> grps (seqs rs2 r)"
  shows "\<exists>m1 m2. m2 \<in> set (ms ic g m1) \<and>
           map_of (snd st') n = Some (take (length (fst m1) - length (fst m2)) (fst m1))"
  using assms(1)
proof (induction rs1 arbitrary: st)
  case Nil
  obtain s1 k1 where e1: "st = (s1, k1)" by (cases st)
  from Nil e1 obtain m where m: "m \<in> set (ms ic (Grp n g) (s1, k1))"
      "st' \<in> set (ms ic (seqs rs2 r) m)"
    by (auto simp: seqs_def)
  from m(1) obtain m2 where m2: "m2 \<in> set (ms ic g (s1, k1))"
      "m = (fst m2, (n, take (length s1 - length (fst m2)) s1) # snd m2)" by auto
  from ms_keep[OF m(2) assms(2)] m2(2)
  have "map_of (snd st') n = Some (take (length s1 - length (fst m2)) s1)"
    by simp
  with m2(1) show ?case by (intro exI[of _ "(s1, k1)"] exI[of _ m2]) simp
next
  case (Cons x rs1)
  obtain s1 k1 where e1: "st = (s1, k1)" by (cases st)
  from Cons(2) e1 obtain m where "st' \<in> set (ms ic (seqs (rs1 @ Grp n g # rs2) r) m)"
    by (auto simp: seqs_def)
  from Cons(1)[OF this] show ?case .
qed

lemma take_consumed: "s = w @ t \<Longrightarrow> take (length s - length t) s = w"
  by simp

lemma rel_ms_kind:
  assumes "st' \<in> set (ms False rel_rx st)"
  shows "map_of (snd st') 1 \<in> Some ` {''ManyToOne'', ''OneToMany'', ''ManyToMany'', ''OneToOne''}"
proof -
  let ?A = "alts [Lit ''ManyToOne'', Lit ''OneToMany'', Lit ''ManyToMany''] (Lit ''OneToOne'')"
  let ?rs = "[Star space, Lit ''('', Star space, Lit ''()'', Star space, Lit ''=>'',
      Star space, Grp 2 (Plus word), Star space]"
  let ?C = "Cls False [Single CHR '','', Single CHR '')'']"
  have r: "rel_rx = seqs ([Lit ''@''] @ Grp 1 ?A # ?rs) ?C"
    by (simp add: rel_rx_def)
  have g: "1 \<notin> grps (seqs ?rs ?C)"
    by (simp add: seqs_def space_def word_def Plus_def)
  from ms_seqs_Grp[OF assms[unfolded r] g] obtain m1 m2 where
    m: "m2 \<in> set (ms False ?A m1)"
       "map_of (snd st') 1 = Some (take (length (fst m1) - length (fst m2)) (fst m1))"
    by blast
  obtain s1 k1 where e1: "m1 = (s1, k1)" by (cases m1)
  from m(1) e1 have "\<exists>w \<in> {''ManyToOne'', ''OneToMany'', ''ManyToMany'', ''OneToOne''}.
       lit_match False w s1 = Some (fst m2)"
    by (auto simp: alts_def split: option.splits)
  then obtain w where w: "w \<in> {''ManyToOne'', ''OneToMany'', ''ManyToMany'', ''OneToOne''}"
     "lit_match False w s1 = Some (fst m2)" by blast
  from lit_match_append[OF w(2)] have "s1 = w @ fst m2" by simp
  from take_consumed[OF this] m(2) e1 w(1) show ?thesis by auto
qed

lemma ms_Plus_Cls_shorter:
  assumes "m2 \<in> set (ms ic (Plus (Cls neg items)) m1)"
  shows "length (fst m2) < length (fst m1)"
proof -
  obtain s1 k1 where e1: "m1 = (s1, k1)" by (cases m1)
  from assms e1 obtain m where m: "m \<in> set (ms ic (Cls neg items) (s1, k1))"
      "m2 \<in> set (ms ic (Star (Cls neg items)) m)"
    by (auto simp: Plus_def)
  from m(1) have "length (fst m) < length s1"
    by (auto split: list.splits if_splits)
  with ms_length[OF m(2)] e1 show ?thesis by simp
qed

lemma rel_ms_target:
  assumes "st' \<in> set (ms False rel_rx st)"
  shows "\<exists>target. map_of (snd st') 2 = Some target \<and> target \<noteq> []"
proof -
  let ?rs = "[Lit ''@'',
      Grp 1 (alts [Lit ''ManyToOne'', Lit ''OneToMany'', Lit ''ManyToMany''] (Lit ''OneToOne'')),
      Star space, Lit ''('', Star space, Lit ''()'', Star space, Lit ''=>'', Star space]"
  let ?C = "Cls False [Single CHR '','', Single CHR '')'']"
  have r: "rel_rx = seqs (?rs @ Grp 2 (Plus word) # [Star space]) ?C"
    by (simp add: rel_rx_def)
  have g: "2 \<notin> grps (seqs [Star space] ?C)"
    by (simp add: seqs_def space_def)
  from ms_seqs_Grp[OF assms[unfolded r] g] obtain m1 m2 where
    m: "m2 \<in> set (ms False (Plus word) m1)"
       "map_of (snd st') 2 = Some (take (length (fst m1) - length (fst m2)) (fst m1))"
    by blast
  from ms_Plus_Cls_shorter[OF m(1)[unfolded word_def]]
  have "take (length (fst m1) - length (fst m2)) (fst m1) \<noteq> []" by auto
  with m(2) show ?thesis by simp
qed

lemma rel_match_groups:
  assumes "match False rel_rx line = Some relMatch"
  shows "\<exists>kind target. group relMatch 1 = Inr kind \<and> group relMatch 2 = Inr target \<and>
           kind \<in> {''ManyToOne'', ''OneToMany'', ''ManyToMany'', ''OneToOne''} \<and> target \<noteq> []"
proof -
  from match_ms[OF assms] obtain t st' where
    st': "st' \<in> set (ms False rel_rx (t, []))" "snd st' = relMatch" by blast
  from rel_ms_kind[OF st'(1)] rel_ms_target[OF st'(1)] st'(2)
  show ?thesis by (auto simp: group_def)
qed

lemma prop_match_groups:
  assumes "match False prop_rx line = Some propMatch"
  shows "\<exists>name' raw. group propMatch 1 = Inr name' \<and> group propMatch 2 = Inr raw"
proof -
  from match_ms[OF assms] obtain t st' where
    st': "st' \<in> set (ms False prop_rx (t, []))" "snd st' = propMatch" by blast
  let ?O = "Opt (alts [Seq (Lit ''public'') (Plus space), Seq (Lit ''protected'') (Plus space)]
                (Seq (Lit ''private'') (Plus space)))"
  let ?G2 = "Grp 2 (Plus (Cls True [Single CHR '';'', Single CHR ''\<newline>'']))"
  have r1: "prop_rx = seqs ([?O] @ Grp 1 (Plus word) #
       [Opt (Lit ''?''), Lit '':'', Star space, ?G2]) (Lit '';'')"
    by (simp add: prop_rx_def)
  have g1: "1 \<notin> grps (seqs [Opt (Lit ''?''), Lit '':'', Star space, ?G2] (Lit '';''))"
    by (simp add: seqs_def space_def Plus_def)
  have r2: "prop_rx = seqs ([?O, Grp 1 (Plus word), Opt (Lit ''?''), Lit '':'', Star space] @
       Grp 2 (Plus (Cls True [Single CHR '';'', Single CHR ''\<newline>''])) # []) (Lit '';'')"
    by (simp add: prop_rx_def)
  have g2: "2 \<notin> grps (seqs [] (Lit '';''))"
    by (simp add: seqs_def)
  from ms_seqs_Grp[OF st'(1)[unfolded r1] g1] ms_seqs_Grp[OF st'(1)[unfolded r2] g2] st'(2)
  show ?thesis by (auto simp: group_def)
qed

lemma relationField_Inr: "\<exists>r. relationField line = Inr r"
proof (cases "match False rel_rx line")
  case None
  then show ?thesis by (simp add: relationField_def)
next
  case (Some relMatch)
  from rel_match_groups[OF Some] obtain kind target where
    "group relMatch 1 = Inr kind" "group relMatch 2 = Inr target" by blast
  with Some show ?thesis by (simp add: relationField_def)
qed

lemma relationField_None: "relationField line = Inr None \<longleftrightarrow> match False rel_rx line = None"
proof (cases "match False rel_rx line")
  case None
  then show ?thesis by (simp add: relationField_def)
next
  case (Some relMatch)
  from rel_match_groups[OF Some] obtain kind target where
    "group relMatch 1 = Inr kind" "group relMatch 2 = Inr target"
    "kind \<in> {''ManyToOne'', ''OneToMany'', ''ManyToMany'', ''OneToOne''}" by blast
  with Some show ?thesis by (auto simp: relationField_def)
qed

lemma propField_Inr: "\<exists>r. propField line = Inr r"
proof (cases "match False prop_rx line")
  case None
  then show ?thesis by (simp add: propField_def)
next
  case (Some propMatch)
  from prop_match_groups[OF Some] obtain name' raw where
    "group propMatch 1 = Inr name'" "group propMatch 2 = Inr raw" by blast
  with Some show ?thesis by (simp add: propField_def Let_def)
qed

lemma propField_None: "propField line = Inr None \<longleftrightarrow> match False prop_rx line = None"
proof (cases "match False prop_rx line")
  case None
  then show ?thesis by (simp add: propField_def)
next
  case (Some propMatch)
  from prop_match_groups[OF Some] obtain name' raw where
    "group propMatch 1 = Inr name'" "group propMatch 2 = Inr raw" by blast
  with Some show ?thesis by (simp add: propField_def Let_def)
qed

lemma lineField_Inr: "lineField line = Inr (fieldOf line)"
proof -
  obtain r where r: "relationField line = Inr r" using relationField_Inr by blast
  obtain q where q: "propField line = Inr q" using propField_Inr by blast
  from r q show ?thesis
    by (cases r; cases q) (simp_all add: lineField_def fieldOf_def)
qed

lemma fieldOf_matched: "fieldOf line \<noteq> None \<longleftrightarrow> matched line"
proof -
  obtain r where r: "relationField line = Inr r" using relationField_Inr by blast
  obtain q where q: "propField line = Inr q" using propField_Inr by blast
  from r q relationField_None[of line] propField_None[of line] show ?thesis
    by (cases r; cases q) (simp_all add: lineField_def fieldOf_def matched_def test_def)
qed

lemma parseLoop_eq:
  "parseLoop ls props = Inr (props @ List.map_filter (\<lambda>l. fieldOf (trim l)) ls)"
proof (induction ls arbitrary: props)
  case Nil
  show ?case by simp
next
  case (Cons l ls)
  show ?case
    by (cases "fieldOf (trim l)") (simp_all add: lineField_Inr Cons)
qed

lemma map_filter_filter:
  "List.map_filter f (filter (\<lambda>x. f x \<noteq> None) xs) = List.map_filter f xs"
  by (induction xs) (auto split: option.splits)

lemma dtoContent_append: "foldl forEach_prop acc props = acc @ concat (map (forEach_prop []) props)"
proof (induction props arbitrary: acc)
  case Nil
  show ?case by simp
next
  case (Cons p ps)
  have "forEach_prop acc p = acc @ forEach_prop [] p"
    by (simp add: forEach_prop_def)
  with Cons[of "forEach_prop acc p"] show ?case by simp
qed

lemma map_filter_Nil_iff: "List.map_filter f xs = [] \<longleftrightarrow> (\<forall>x \<in> set xs. f x = None)"
  by (induction xs) (auto split: option.splits)

lemma map_filter_Some: "map f (filter (\<lambda>x. f x \<noteq> None) xs) = map Some (List.map_filter f xs)"
  by (induction xs) (auto split: option.splits)

lemma map_filter_map: "List.map_filter (\<lambda>x. f (g x)) xs = List.map_filter f (map g xs)"
  by (induction xs) (auto split: option.splits)

lemma filter_matched: "filter (\<lambda>l. matched (trim l)) ls = filter (\<lambda>l. fieldOf (trim l) \<noteq> None) ls"
  by (simp only: fieldOf_matched)

subsection \<open>Lines of the shape of a relation annotation\<close>

lemma first_Seq:
  "first_success a st = Some x \<Longrightarrow> first_success b x = Some y \<Longrightarrow> first_success (Seq a b) st = Some y"
  by (cases st) (auto simp: first_success_def split: list.splits)

lemma first_seqs:
  "first_success a st = Some x \<Longrightarrow> first_success (seqs rs r) x = Some y \<Longrightarrow>
   first_success (seqs (a # rs) r) st = Some y"
  by (simp add: seqs_def first_Seq)

lemma match_first: "first_success r (s, []) = Some st \<Longrightarrow> match False r s = Some (snd st)"
  by (subst match.simps) (auto simp: first_success_def simp del: match.simps split: list.splits)

lemma first_Lit: "first_success (Lit w) (w @ t, k) = Some (t, k)"
proof -
  have "lit_match False w (w @ t) = Some t" by (induction w) auto
  then show ?thesis by (simp add: first_success_def)
qed

lemma ms_Star_stop:
  "\<not> in_class neg items c \<Longrightarrow> ms ic (Star (Cls neg items)) (c # t, k) = [(c # t, k)]"
  by (subst ms.simps(6)) (simp del: ms.simps(6))

lemma ms_Star_step:
  "in_class neg items c \<Longrightarrow>
   ms ic (Star (Cls neg items)) (c # t, k) = ms ic (Star (Cls neg items)) (t, k) @ [(c # t, k)]"
  by (subst ms.simps(6)) (simp del: ms.simps(6))

lemma first_Star_stop:
  "\<not> in_class neg items c \<Longrightarrow> first_success (Star (Cls neg items)) (c # t, k) = Some (c # t, k)"
  by (simp add: first_success_def ms_Star_stop del: ms.simps(6))

lemma first_Star_all:
  "\<forall>c \<in> set X. in_class neg items c \<Longrightarrow> \<not> in_class neg items d \<Longrightarrow>
   first_success (Star (Cls neg items)) (X @ d # t, k) = Some (d # t, k)"
proof (induction X)
  case Nil
  then show ?case by (simp add: first_Star_stop del: ms.simps(6))
next
  case (Cons x X)
  then have "first_success (Star (Cls neg items)) (X @ d # t, k) = Some (d # t, k)" by simp
  with Cons(2) show ?case
    by (auto simp: first_success_def ms_Star_step simp del: ms.simps(6) split: list.splits)
qed

lemma first_Plus_all:
  assumes "X \<noteq> []" "\<forall>c \<in> set X. in_class neg items c" "\<not> in_class neg items d"
  shows "first_success (Plus (Cls neg items)) (X @ d # t, k) = Some (d # t, k)"
proof -
  from assms(1) obtain x xs where X: "X = x # xs" by (cases X) auto
  with assms(2) have "first_success (Cls neg items) (X @ d # t, k) = Some (xs @ d # t, k)"
    by (simp add: first_success_def)
  moreover from assms(2,3) X have "first_success (Star (Cls neg items)) (xs @ d # t, k) = Some (d # t, k)"
    by (simp add: first_Star_all del: ms.simps(6))
  ultimately show ?thesis by (simp add: Plus_def first_Seq del: ms.simps)
qed

lemma first_Grp:
  "first_success g (w @ t, k) = Some (t, k') \<Longrightarrow>
   first_success (Grp n g) (w @ t, k) = Some (t, (n, w) # k')"
  by (auto simp: first_success_def simp del: ms.simps(6) split: list.splits)



lemma word_not_space: "in_class False word_chars c \<Longrightarrow> \<not> in_class False [WhiteSpace] c"
  by (auto simp: in_class_def word_chars_def is_space_def)

lemma first_kind:
  assumes "kind \<in> {''ManyToOne'', ''OneToMany'', ''ManyToMany'', ''OneToOne''}"
  shows "first_success
           (alts [Lit ''ManyToOne'', Lit ''OneToMany'', Lit ''ManyToMany''] (Lit ''OneToOne''))
           (kind @ t, k) = Some (t, k)"
  using assms by (auto simp: first_success_def alts_def)

lemma relation_shape:
  assumes kind: "kind \<in> {''ManyToOne'', ''OneToMany'', ''ManyToMany'', ''OneToOne''}"
    and X: "X \<noteq> []" "\<forall>c \<in> set X. in_class False word_chars c"
    and d: "d = CHR '','' \<or> d = CHR '')''"
  shows "match False rel_rx (''@'' @ kind @ ''(() => '' @ X @ d # rest) = Some [(2, X), (1, kind)]"
proof -
  let ?A = "alts [Lit ''ManyToOne'', Lit ''OneToMany'', Lit ''ManyToMany''] (Lit ''OneToOne'')"
  let ?C = "Cls False [Single CHR '','', Single CHR '')'']"
  let ?k1 = "[(1, kind)]"
  let ?k2 = "[(2, X), (1, kind)]"
  from X(1) obtain x xs where Xc: "X = x # xs" by (cases X) auto
  with X(2) have x: "\<not> in_class False [WhiteSpace] x" by (simp add: word_not_space)
  from d have dw: "\<not> in_class False word_chars d" and ds: "\<not> in_class False [WhiteSpace] d"
    by (auto simp: in_class_def word_chars_def is_space_def)
  have e12: "first_success ?C (d # rest, ?k2) = Some (rest, ?k2)"
    using d by (auto simp: first_success_def in_class_def)
  have e11: "first_success (Star space) (d # rest, ?k2) = Some (d # rest, ?k2)"
    unfolding space_def by (rule first_Star_stop[OF ds])
  have "first_success (Plus word) (X @ d # rest, ?k1) = Some (d # rest, ?k1)"
    unfolding word_def by (rule first_Plus_all[OF X dw])
  then have e10: "first_success (Grp 2 (Plus word)) (X @ d # rest, ?k1) = Some (d # rest, ?k2)"
    by (rule first_Grp)
  have e9: "first_success (Star space) ('' '' @ X @ d # rest, ?k1) = Some (X @ d # rest, ?k1)"
    unfolding space_def Xc using first_Star_all[of "'' ''" False "[WhiteSpace]" x "xs @ d # rest" ?k1] x
    by (simp add: in_class_def is_space_def)
  have e8: "first_success (Lit ''=>'') (''=>'' @ '' '' @ X @ d # rest, ?k1) = Some ('' '' @ X @ d # rest, ?k1)"
    by (rule first_Lit)
  have e7: "first_success (Star space) ('' '' @ ''=>'' @ '' '' @ X @ d # rest, ?k1)
      = Some (''=>'' @ '' '' @ X @ d # rest, ?k1)"
    unfolding space_def
    using first_Star_all[of "'' ''" False "[WhiteSpace]" "CHR ''=''" "''>'' @ '' '' @ X @ d # rest" ?k1]
    by (simp add: in_class_def is_space_def)
  have e6: "first_success (Lit ''()'') (''()'' @ '' '' @ ''=>'' @ '' '' @ X @ d # rest, ?k1)
      = Some ('' '' @ ''=>'' @ '' '' @ X @ d # rest, ?k1)"
    by (rule first_Lit)
  have e5: "first_success (Star space) (''()'' @ '' '' @ ''=>'' @ '' '' @ X @ d # rest, ?k1)
      = Some (''()'' @ '' '' @ ''=>'' @ '' '' @ X @ d # rest, ?k1)"
    unfolding space_def
    using first_Star_stop[of False "[WhiteSpace]" "CHR ''(''" "'')'' @ '' '' @ ''=>'' @ '' '' @ X @ d # rest" ?k1]
    by (simp add: in_class_def is_space_def)
  have e4: "first_success (Lit ''('') (''('' @ ''()'' @ '' '' @ ''=>'' @ '' '' @ X @ d # rest, ?k1)
      = Some (''()'' @ '' '' @ ''=>'' @ '' '' @ X @ d # rest, ?k1)"
    by (rule first_Lit)
  have e3: "first_success (Star space) (''('' @ ''()'' @ '' '' @ ''=>'' @ '' '' @ X @ d # rest, ?k1)
      = Some (''('' @ ''()'' @ '' '' @ ''=>'' @ '' '' @ X @ d # rest, ?k1)"
    unfolding space_def
    using first_Star_stop[of False "[WhiteSpace]" "CHR ''(''" "''()'' @ '' '' @ ''=>'' @ '' '' @ X @ d # rest" ?k1]
    by (simp add: in_class_def is_space_def)
  have "first_success ?A (kind @ ''('' @ ''()'' @ '' '' @ ''=>'' @ '' '' @ X @ d # rest, [])
      = Some (''('' @ ''()'' @ '' '' @ ''=>'' @ '' '' @ X @ d # rest, [])"
    by (rule first_kind[OF kind])
  then have e2: "first_success (Grp 1 ?A) (kind @ ''('' @ ''()'' @ '' '' @ ''=>'' @ '' '' @ X @ d # rest, [])
      = Some (''('' @ ''()'' @ '' '' @ ''=>'' @ '' '' @ X @ d # rest, ?k1)"
    by (rule first_Grp)
  have e1: "first_success (Lit ''@'') (''@'' @ kind @ ''('' @ ''()'' @ '' '' @ ''=>'' @ '' '' @ X @ d # rest, [])
      = Some (kind @ ''('' @ ''()'' @ '' '' @ ''=>'' @ '' '' @ X @ d # rest, [])"
    by (rule first_Lit)
  have e12': "first_success (seqs [] ?C) (d # rest, ?k2) = Some (rest, ?k2)"
    using e12 by (simp add: seqs_def)
  note c = first_seqs[OF e1 first_seqs[OF e2 first_seqs[OF e3 first_seqs[OF e4 first_seqs[OF e5
      first_seqs[OF e6 first_seqs[OF e7 first_seqs[OF e8 first_seqs[OF e9 first_seqs[OF e10
      first_seqs[OF e11 e12']]]]]]]]]]]
  have "first_success rel_rx (''@'' @ kind @ ''('' @ ''()'' @ '' '' @ ''=>'' @ '' '' @ X @ d # rest, [])
      = Some (rest, ?k2)"
    unfolding rel_rx_def by (rule c)
  from match_first[OF this] show ?thesis by simp
qed

subsection \<open>The lines of the generated text\<close>

lemma ms_Star_Cls_consumed:
  "st' \<in> set (ms ic (Star (Cls neg items)) (s, k)) \<Longrightarrow>
   \<exists>w. s = w @ fst st' \<and> (\<forall>c \<in> set w. in_class neg items c)"
proof (induction s arbitrary: st')
  case Nil
  have "ms ic (Star (Cls neg items)) ([], k) = [([], k)]"
    by (subst ms.simps(6)) (simp del: ms.simps(6))
  with Nil show ?case by simp
next
  case (Cons c t)
  show ?case
  proof (cases "in_class neg items c")
    case True
    from Cons.prems ms_Star_step[OF True, of ic t k]
    consider "st' \<in> set (ms ic (Star (Cls neg items)) (t, k))" | "st' = (c # t, k)"
      by auto
    then show ?thesis
    proof cases
      case 1
      from Cons.IH[OF 1] obtain w where "t = w @ fst st'" "\<forall>c \<in> set w. in_class neg items c"
        by blast
      with True show ?thesis by (intro exI[of _ "c # w"]) simp
    next
      case 2
      then show ?thesis by (intro exI[of _ "[]"]) simp
    qed
  next
    case False
    from Cons.prems ms_Star_stop[OF False, of ic t k] have "st' = (c # t, k)" by simp
    then show ?thesis by (intro exI[of _ "[]"]) simp
  qed
qed

lemma ms_Plus_Cls_consumed:
  assumes "m2 \<in> set (ms ic (Plus (Cls neg items)) m1)"
  shows "\<forall>c \<in> set (take (length (fst m1) - length (fst m2)) (fst m1)). in_class neg items c"
proof -
  obtain s1 k1 where e1: "m1 = (s1, k1)" by (cases m1)
  from assms e1 obtain m where m: "m \<in> set (ms ic (Cls neg items) (s1, k1))"
      "m2 \<in> set (ms ic (Star (Cls neg items)) m)"
    by (auto simp: Plus_def simp del: ms.simps(6))
  from m(1) obtain c t where c: "s1 = c # t" "in_class neg items c" "m = (t, k1)"
    by (auto split: list.splits if_splits)
  from ms_Star_Cls_consumed[OF m(2)[unfolded c(3)]] obtain w where
    w: "t = w @ fst m2" "\<forall>c \<in> set w. in_class neg items c" by blast
  from c(1) w(1) have "s1 = (c # w) @ fst m2" by simp
  from take_consumed[OF this] c(2) w(2) e1 show ?thesis by simp
qed

lemma rel_ms_target_word:
  assumes "st' \<in> set (ms False rel_rx st)" and "map_of (snd st') 2 = Some target"
  shows "\<forall>c \<in> set target. in_class False word_chars c"
proof -
  let ?rs = "[Lit ''@'',
      Grp 1 (alts [Lit ''ManyToOne'', Lit ''OneToMany'', Lit ''ManyToMany''] (Lit ''OneToOne'')),
      Star space, Lit ''('', Star space, Lit ''()'', Star space, Lit ''=>'', Star space]"
  let ?C = "Cls False [Single CHR '','', Single CHR '')'']"
  have r: "rel_rx = seqs (?rs @ Grp 2 (Plus word) # [Star space]) ?C"
    by (simp add: rel_rx_def)
  have g: "2 \<notin> grps (seqs [Star space] ?C)"
    by (simp add: seqs_def space_def)
  from ms_seqs_Grp[OF assms(1)[unfolded r] g] obtain m1 m2 where
    m: "m2 \<in> set (ms False (Plus word) m1)"
       "map_of (snd st') 2 = Some (take (length (fst m1) - length (fst m2)) (fst m1))"
    by blast
  from ms_Plus_Cls_consumed[OF m(1)[unfolded word_def]] m(2) assms(2) show ?thesis by simp
qed

lemma prop_ms_name_word:
  assumes "st' \<in> set (ms False prop_rx st)" and "map_of (snd st') 1 = Some name'"
  shows "\<forall>c \<in> set name'. in_class False word_chars c"
proof -
  let ?O = "Opt (alts [Seq (Lit ''public'') (Plus space), Seq (Lit ''protected'') (Plus space)]
                (Seq (Lit ''private'') (Plus space)))"
  let ?G2 = "Grp 2 (Plus (Cls True [Single CHR '';'', Single CHR ''\<newline>'']))"
  have r1: "prop_rx = seqs ([?O] @ Grp 1 (Plus word) #
       [Opt (Lit ''?''), Lit '':'', Star space, ?G2]) (Lit '';'')"
    by (simp add: prop_rx_def)
  have g1: "1 \<notin> grps (seqs [Opt (Lit ''?''), Lit '':'', Star space, ?G2] (Lit '';''))"
    by (simp add: seqs_def space_def Plus_def)
  from ms_seqs_Grp[OF assms(1)[unfolded r1] g1] obtain m1 m2 where
    m: "m2 \<in> set (ms False (Plus word) m1)"
       "map_of (snd st') 1 = Some (take (length (fst m1) - length (fst m2)) (fst m1))"
    by blast
  from ms_Plus_Cls_consumed[OF m(1)[unfolded word_def]] m(2) assms(2) show ?thesis by simp
qed

lemma word_no_newline:
  assumes "in_class False word_chars c"
  shows "c \<noteq> CHR ''\<newline>''" and "toLowerCase c \<noteq> CHR ''\<newline>''"
proof -
  from assms show "c \<noteq> CHR ''\<newline>''"
    by (auto simp: in_class_def word_chars_def)
  from assms have "(48::nat) \<le> of_char c" "of_char c \<le> (122::nat)"
    by (auto simp: in_class_def word_chars_def)
  then have "(of_char (toLowerCase c) :: nat) \<noteq> 10"
    by (auto simp: toLowerCase_def Let_def)
  then show "toLowerCase c \<noteq> CHR ''\<newline>''" by auto
qed

lemma canonicalType_no_newline: "CHR ''\<newline>'' \<notin> set (canonicalType t)"
  by (simp add: canonicalType_def)

lemma lineField_no_newline:
  assumes "lineField line = Inr (Some p)"
  shows "CHR ''\<newline>'' \<notin> set (name p) \<and> CHR ''\<newline>'' \<notin> set (type p)"
proof (cases "relationField line")
  case (Inl e)
  with assms show ?thesis by (simp add: lineField_def)
next
  case (Inr r)
  show ?thesis
  proof (cases r)
    case (Some rel)
    with Inr assms have rel: "relationField line = Inr (Some p)" by (simp add: lineField_def)
    then obtain relMatch where rm: "match False rel_rx line = Some relMatch"
      by (auto simp: relationField_def split: option.splits)
    from match_ms[OF rm] obtain t st' where
      st': "st' \<in> set (ms False rel_rx (t, []))" "snd st' = relMatch" by blast
    from rel rm obtain target where tg: "group relMatch 2 = Inr target"
        "name p = lowerFirst target @ ''Id'' \<or> name p = lowerFirst target @ ''Ids''"
        "type p = ''number''"
      by (auto simp: relationField_def split: sum.splits if_splits)
    from tg(1) st'(2) have "map_of (snd st') 2 = Some target"
      by (auto simp: group_def split: option.splits)
    from rel_ms_target_word[OF st'(1) this] have w: "\<forall>c \<in> set target. in_class False word_chars c" .
    have "CHR ''\<newline>'' \<notin> set (lowerFirst target)"
    proof (cases target)
      case Nil
      then show ?thesis by (simp add: lowerFirst_def)
    next
      case (Cons c cs)
      with w word_no_newline[of c] word_no_newline(1) show ?thesis
        by (auto simp: lowerFirst_def)
    qed
    with tg(2,3) show ?thesis by auto
  next
    case None
    with Inr assms have pf: "propField line = Inr (Some p)" by (simp add: lineField_def)
    then obtain propMatch where pm: "match False prop_rx line = Some propMatch"
      by (auto simp: propField_def split: option.splits)
    from match_ms[OF pm] obtain t st' where
      st': "st' \<in> set (ms False prop_rx (t, []))" "snd st' = propMatch" by blast
    from pf pm obtain raw where nm: "group propMatch 1 = Inr (name p)"
        "type p = canonicalType (trim raw)"
      by (auto simp: propField_def Let_def split: sum.splits)
    from nm(1) st'(2) have "map_of (snd st') 1 = Some (name p)"
      by (auto simp: group_def split: option.splits)
    from prop_ms_name_word[OF st'(1) this] word_no_newline(1)
    have "CHR ''\<newline>'' \<notin> set (name p)" by auto
    with nm(2) canonicalType_no_newline show ?thesis by simp
  qed
qed


lemma split_nl_line:
  "CHR ''\<newline>'' \<notin> set l \<Longrightarrow> split_nl (l @ CHR ''\<newline>'' # rest) = l # split_nl rest"
  by (induction l) auto

lemma split_nl_lines:
  "\<forall>l \<in> set ls. CHR ''\<newline>'' \<notin> set l \<Longrightarrow>
   split_nl (concat (map (\<lambda>l. l @ ''\<newline>'') ls) @ rest) = ls @ split_nl rest"
  by (induction ls) (simp_all add: split_nl_line)

lemma render_validator_no_newline:
  "CHR ''\<newline>'' \<notin> set (name p) \<Longrightarrow> v \<in> set (validators p) \<Longrightarrow>
   CHR ''\<newline>'' \<notin> set (render_validator v)"
  by (auto simp: validators_def quoted_def split: if_splits)

lemma forEach_prop_lines:
  "forEach_prop [] p =
     concat (map (\<lambda>l. l @ ''\<newline>'')
       (map render_decorator (decorators p) @ map render_validator (validators p)
        @ [''  '' @ name p @ '': '' @ type p @ (if isArray p then ''[]'' else []) @ '';'', []]))"
  by (simp add: forEach_prop_def comp_def)

lemma dtoContent_lines:
  assumes "\<forall>p \<in> set props. CHR ''\<newline>'' \<notin> set (name p) \<and> CHR ''\<newline>'' \<notin> set (type p)"
  shows "split_nl (dtoContent props) =
     concat (map (\<lambda>p. map render_decorator (decorators p) @ map render_validator (validators p)
        @ [''  '' @ name p @ '': '' @ type p @ (if isArray p then ''[]'' else []) @ '';'', []])
        props) @ [[]]"
proof -
  let ?lines = "\<lambda>p. map render_decorator (decorators p) @ map render_validator (validators p)
        @ [''  '' @ name p @ '': '' @ type p @ (if isArray p then ''[]'' else []) @ '';'', []]"
  have "dtoContent props = concat (map (forEach_prop []) props)"
    using dtoContent_append[of "[]" props] by (simp add: dtoContent_def)
  also have "\<dots> = concat (map (\<lambda>p. concat (map (\<lambda>l. l @ ''\<newline>'') (?lines p))) props)"
    by (rule arg_cong[where f = concat], rule map_cong[OF refl]) (rule forEach_prop_lines)
  also have "\<dots> = concat (map (\<lambda>l. l @ ''\<newline>'') (concat (map ?lines props)))"
    by (induction props) simp_all
  finally have e: "dtoContent props = concat (map (\<lambda>l. l @ ''\<newline>'') (concat (map ?lines props))) @ []"
    by simp
  have n: "\<forall>l \<in> set (concat (map ?lines props)). CHR ''\<newline>'' \<notin> set l"
  proof
    fix l assume "l \<in> set (concat (map ?lines props))"
    then obtain p where p: "p \<in> set props" "l \<in> set (?lines p)" by auto
    with assms have c: "CHR ''\<newline>'' \<notin> set (name p)" "CHR ''\<newline>'' \<notin> set (type p)" by auto
    from p(2) consider d where "d \<in> set (decorators p)" "l = render_decorator d"
      | v where "v \<in> set (validators p)" "l = render_validator v"
      | "l = ''  '' @ name p @ '': '' @ type p @ (if isArray p then ''[]'' else []) @ '';''"
      | "l = []"
      by auto
    then show "CHR ''\<newline>'' \<notin> set l"
    proof cases
      case 1
      with c(1) show ?thesis by (auto simp: decorators_def quoted_def split: if_splits)
    next
      case 2
      with render_validator_no_newline[OF c(1)] show ?thesis by simp
    next
      case 3
      with c show ?thesis by simp
    next
      case 4
      then show ?thesis by simp
    qed
  qed
  from split_nl_lines[OF n, of "[]"] e show ?thesis by simp
qed

subsection \<open>The two generators extract the same fields\<close>

lemma relationField_basic_eq:
  "relationField_basic line =
     map_sum id (map_option (\<lambda>p. (name p, isArray p))) (relationField line)"
  by (simp add: relationField_basic_def relationField_def split: option.splits sum.splits)

lemma relationField_isRelation: "relationField line = Inr (Some rel) \<Longrightarrow> isRelation rel"
  by (auto simp: relationField_def split: option.splits sum.splits if_splits)

lemma lineField_basic_agrees:
  "map_sum id (map_option (\<lambda>b. (name_b b, isRelation_b b))) (lineField_basic line) =
   map_sum id (map_option (\<lambda>p. (name p, isRelation p))) (lineField line)"
proof (cases "relationField line")
  case (Inl e)
  then show ?thesis
    by (simp add: lineField_basic_def lineField_def relationField_basic_eq)
next
  case (Inr r)
  show ?thesis
  proof (cases r)
    case None
    with Inr show ?thesis
      by (simp add: lineField_basic_def lineField_def relationField_basic_eq propField_def Let_def
               split: option.splits sum.splits)
  next
    case (Some rel)
    with Inr relationField_isRelation[of line rel] show ?thesis
      by (simp add: lineField_basic_def lineField_def relationField_basic_eq)
  qed
qed

lemma parseLoop_basic_agrees:
  "map (\<lambda>b. (name_b b, isRelation_b b)) propsb = map (\<lambda>p. (name p, isRelation p)) props \<Longrightarrow>
   map_sum id (map (\<lambda>b. (name_b b, isRelation_b b))) (parseLoop_basic ls propsb) =
   map_sum id (map (\<lambda>p. (name p, isRelation p))) (parseLoop ls props)"
proof (induction ls arbitrary: propsb props)
  case Nil
  then show ?case by simp
next
  case (Cons l ls)
  note a = lineField_basic_agrees[of "trim l"]
  show ?case
  proof (cases "lineField (trim l)")
    case (Inl e)
    with a have "lineField_basic (trim l) = Inl e"
      by (cases "lineField_basic (trim l)") auto
    with Inl show ?thesis by simp
  next
    case (Inr r)
    show ?thesis
    proof (cases r)
      case None
      with a Inr have "lineField_basic (trim l) = Inr None"
        by (cases "lineField_basic (trim l)") auto
      with Inr None Cons.IH[OF Cons.prems] show ?thesis by simp
    next
      case (Some p)
      with a Inr obtain b where b: "lineField_basic (trim l) = Inr (Some b)"
          "name_b b = name p" "isRelation_b b = isRelation p"
        by (cases "lineField_basic (trim l)") auto
      from Cons.prems b(2,3)
      have "map (\<lambda>b. (name_b b, isRelation_b b)) (propsb @ [b]) =
            map (\<lambda>p. (name p, isRelation p)) (props @ [p])"
        by simp
      from Cons.IH[OF this] Inr Some b(1) show ?thesis by simp
    qed
  qed
qed

lemma parseProps_basic_agrees:
  "map_sum id (map (\<lambda>b. (name_b b, isRelation_b b))) (parseLoop_basic (split_nl entityContent) []) =
   map_sum id (map (\<lambda>p. (name p, isRelation p))) (parseProps entityContent)"
  unfolding parseProps_def by (rule parseLoop_basic_agrees) simp

text \<open>
  The generator without validators declares a field of a date type as a \<open>string\<close>, and
  its only validator line is \<open>@IsOptional()\<close>.
\<close>

lemma mapType_date:
  "dtoLines [\<lparr>name_b = ''created_at'', typeRaw = ''Date'', isRelation_b = False,
              isArray_b = False\<rparr>] =
     [''  @ApiPropertyOptional()\<newline>  @IsOptional()\<newline>  created_at: string;'']"
  by code_simp

section \<open>The claims\<close>

text \<open>
  The claims are stated for the generator with validators, the one that has a rule for
  the type of a field and a required flag. By \<open>parseProps_basic_agrees\<close> the generator
  without validators extracts fields of the same names, relations or not, from the same
  lines and in the same order.
\<close>

subsection \<open>C1: the optional array of strings\<close>

text \<open>
  C1, as the code has it. On the one-line input \<open>tags?: string[];\<close> the extractor and
  the mapper produce exactly one field, named \<open>tags\<close> and not required, and its presence
  rule is IsOptional. Its canonical type is \<open>string\<close>, not \<open>array\<close>, and its only type
  rule is IsString: the declared type \<open>string[]\<close> contains \<open>string\<close>, so the second
  test of the chain succeeds before the test for the suffix \<open>[]\<close> is reached, although
  that test would succeed as well. A declared type such as \<open>Tag[]\<close>, which passes none
  of the four tests before it, does reach it and is an \<open>array\<close>.
\<close>

theorem tags_declared_string_array:
  "fieldSpecs ''tags?: string[];'' =
     Inr [(\<lparr>name = ''tags'', type = ''string'', isOptional = True, isArray = False,
            isRelation = False\<rparr>, [IsOptional, IsString ''tags''])]
   \<and> test True string_rx ''string[]'' \<and> test False brackets_rx ''string[]''
   \<and> fieldSpecs ''labels?: Tag[];'' =
     Inr [(\<lparr>name = ''labels'', type = ''array'', isOptional = True, isArray = True,
            isRelation = False\<rparr>, [IsOptional, IsArray ''labels''])]"
  by code_simp

text \<open>
  C1 as the claim states it fails: the output is not the single field of canonical type
  \<open>array\<close> with the rules IsOptional and IsArray.
\<close>

theorem tags_not_array_counterexample:
  "fieldSpecs ''tags?: string[];'' \<noteq>
     Inr [(\<lparr>name = ''tags'', type = ''array'', isOptional = True, isArray = True,
            isRelation = False\<rparr>, [IsOptional, IsArray ''tags''])]"
  by code_simp

subsection \<open>C2: a relation annotation and the property under it\<close>

text \<open>
  C2, as the code has it. The line \<open>@ManyToOne(() => Client, ...)\<close> yields exactly one
  field: its name is \<open>clientId\<close>, from the target \<open>Client\<close> of the annotation and not
  from the property \<open>cliente\<close> below it, its type is \<open>number\<close>, it is not an array and
  it is required. Its validator lines are IsNotEmpty, IsNumber, IsPositive (the field is
  a required number that is not an array) and, last, the conversion to a number. On the
  two-line input of the claim this field is the first of the output.
\<close>

theorem many_to_one_client_first_field:
  "fieldSpecs ''@ManyToOne(() => Client, ...)'' =
     Inr [(\<lparr>name = ''clientId'', type = ''number'', isOptional = False, isArray = False,
            isRelation = True\<rparr>,
           [IsNotEmpty ''clientId'', IsNumber ''clientId'', IsPositive ''clientId'', Type_Number])]
   \<and> (\<exists>rest. fieldSpecs ''@ManyToOne(() => Client, ...)\<newline> cliente: Client;'' =
     Inr ((\<lparr>name = ''clientId'', type = ''number'', isOptional = False, isArray = False,
            isRelation = True\<rparr>,
           [IsNotEmpty ''clientId'', IsNumber ''clientId'', IsPositive ''clientId'', Type_Number])
          # rest))"
proof
  show "fieldSpecs ''@ManyToOne(() => Client, ...)'' =
     Inr [(\<lparr>name = ''clientId'', type = ''number'', isOptional = False, isArray = False,
            isRelation = True\<rparr>,
           [IsNotEmpty ''clientId'', IsNumber ''clientId'', IsPositive ''clientId'', Type_Number])]"
    by code_simp
next
  have "fieldSpecs ''@ManyToOne(() => Client, ...)\<newline> cliente: Client;'' =
     Inr ((\<lparr>name = ''clientId'', type = ''number'', isOptional = False, isArray = False,
            isRelation = True\<rparr>,
           [IsNotEmpty ''clientId'', IsNumber ''clientId'', IsPositive ''clientId'', Type_Number])
          # [(\<lparr>name = ''cliente'', type = ''any'', isOptional = False, isArray = False,
            isRelation = False\<rparr>, [IsNotEmpty ''cliente''])])"
    by code_simp
  then show "\<exists>rest. fieldSpecs ''@ManyToOne(() => Client, ...)\<newline> cliente: Client;'' =
     Inr ((\<lparr>name = ''clientId'', type = ''number'', isOptional = False, isArray = False,
            isRelation = True\<rparr>,
           [IsNotEmpty ''clientId'', IsNumber ''clientId'', IsPositive ''clientId'', Type_Number])
          # rest)"
    by (rule exI)
qed

text \<open>
  C2 as the claim states it fails on the two-line input: the output is not the single
  field \<open>clienteId\<close> with the rules IsNumber and the conversion to a number.
\<close>

theorem many_to_one_client_counterexample:
  "fieldSpecs ''@ManyToOne(() => Client, ...)\<newline> cliente: Client;'' \<noteq>
     Inr [(\<lparr>name = ''clienteId'', type = ''number'', isOptional = False, isArray = False,
            isRelation = True\<rparr>,
           [IsNotEmpty ''clienteId'', IsNumber ''clienteId'', Type_Number])]"
  by code_simp

subsection \<open>C3: the optional marker\<close>

text \<open>
  C3 at a failing input. The declaration \<open>email: string;\<close> has no optional marker on its
  name, and a comment with a question mark follows it on the line. The extractor tests
  the whole line for a question mark, so the field is optional and gets IsOptional,
  where the claim has it required. Without the comment the same declaration is required.
\<close>

theorem question_mark_in_comment:
  "fieldSpecs ''email: string; // unique?'' =
     Inr [(\<lparr>name = ''email'', type = ''string'', isOptional = True, isArray = False,
            isRelation = False\<rparr>, [IsOptional, IsString ''email''])]
   \<and> fieldSpecs ''email: string;'' =
     Inr [(\<lparr>name = ''email'', type = ''string'', isOptional = False, isArray = False,
            isRelation = False\<rparr>, [IsNotEmpty ''email'', IsString ''email''])]"
  by code_simp

subsection \<open>C4: declarations of a date type\<close>

text \<open>
  C4. Take a trimmed line that is not a relation annotation and that the property pattern
  matches, with the name in the first group and the declared type in the second. When
  the trimmed declared type passes the test for \<open>Date|datetime|timestamp\<close> (letter case
  ignored) and none of the three tests before it (string, number, boolean), the loop body
  pushes a property of type \<open>Date\<close>, which is neither an array nor a relation, and the
  only validator line of the property besides its presence rule is IsDate.
\<close>

theorem date_declaration_gets_IsDate:
  assumes "relationField line = Inr None"
    and "match False prop_rx line = Some propMatch"
    and "group propMatch 1 = Inr name'"
    and "group propMatch 2 = Inr declaredType"
    and "test True date_rx (trim declaredType)"
    and "\<not> test True string_rx (trim declaredType)"
    and "\<not> test True number_rx (trim declaredType)"
    and "\<not> test True boolean_rx (trim declaredType)"
  shows "\<exists>prop. lineField line = Inr (Some prop) \<and> name prop = name' \<and> type prop = ''Date''
           \<and> \<not> isArray prop \<and> \<not> isRelation prop
           \<and> filter (\<lambda>v. \<not> is_presence v) (validators prop) = [IsDate name']"
  using assms
  by (simp add: lineField_def propField_def canonicalType_def validators_def Let_def)

text \<open>The hypotheses of C4 hold for the line \<open>created_at: Date;\<close>.\<close>

theorem date_declaration_witness:
  "lineField ''created_at: Date;'' =
     Inr (Some \<lparr>name = ''created_at'', type = ''Date'', isOptional = False, isArray = False,
                isRelation = False\<rparr>)
   \<and> validators \<lparr>name = ''created_at'', type = ''Date'', isOptional = False, isArray = False,
                isRelation = False\<rparr> = [IsNotEmpty ''created_at'', IsDate ''created_at'']
   \<and> test True date_rx ''Date''"
proof -
  have h1: "relationField ''created_at: Date;'' = Inr None" by code_simp
  have h2: "match False prop_rx ''created_at: Date;'' = Some [(2, ''Date''), (1, ''created_at'')]"
    by code_simp
  have h3: "group [(2, ''Date''), (1, ''created_at'')] 1 = Inr ''created_at''" by code_simp
  have h4: "group [(2, ''Date''), (1, ''created_at'')] 2 = Inr ''Date''" by code_simp
  have h5: "test True date_rx (trim ''Date'')" by code_simp
  have h6: "\<not> test True string_rx (trim ''Date'')" by code_simp
  have h7: "\<not> test True number_rx (trim ''Date'')" by code_simp
  have h8: "\<not> test True boolean_rx (trim ''Date'')" by code_simp
  from date_declaration_gets_IsDate[OF h1 h2 h3 h4 h5 h6 h7 h8]
  obtain fld where p: "lineField ''created_at: Date;'' = Inr (Some fld)"
    "type fld = ''Date''" "filter (\<lambda>v. \<not> is_presence v) (validators fld) = [IsDate ''created_at'']"
    by blast
  have l: "lineField ''created_at: Date;'' =
     Inr (Some \<lparr>name = ''created_at'', type = ''Date'', isOptional = False, isArray = False,
                isRelation = False\<rparr>)"
    by code_simp
  have v: "validators \<lparr>name = ''created_at'', type = ''Date'', isOptional = False, isArray = False,
                isRelation = False\<rparr> = [IsNotEmpty ''created_at'', IsDate ''created_at'']"
    by code_simp
  have t: "test True date_rx ''Date''" by code_simp
  from p l v t show ?thesis by simp
qed

subsection \<open>C5: the field of a relation annotation\<close>

text \<open>
  C5. Whenever the relation pattern matches a trimmed line, its first group is one of the
  four kinds and its second group, the target, is not empty. For the kinds ManyToOne and
  OneToOne the loop body pushes exactly one property, named by the target with its first
  character in lower case and \<open>Id\<close> appended, which is not an array; for the kinds
  OneToMany and ManyToMany it pushes exactly one property with \<open>Ids\<close> appended, which is
  an array. Only the first character of the target changes. In both cases the property
  is a relation of type \<open>number\<close> and is not optional, that is, it is required.
  By \<open>relation_shape\<close> the pattern matches every line that starts with \<open>@Kind(() => X\<close>
  followed by a comma or a closing parenthesis, for a kind of the four and a non-empty
  target \<open>X\<close> of letters, digits and underscores, and its groups are then \<open>Kind\<close> and \<open>X\<close>.
\<close>

theorem relation_field_name:
  assumes "match False rel_rx line = Some relMatch"
  shows "\<exists>kind c cs.
           group relMatch 1 = Inr kind \<and> group relMatch 2 = Inr (c # cs)
         \<and> kind \<in> {''ManyToOne'', ''OneToOne'', ''OneToMany'', ''ManyToMany''}
         \<and> (kind \<in> {''ManyToOne'', ''OneToOne''} \<longrightarrow>
              lineField line = Inr (Some \<lparr>name = toLowerCase c # cs @ ''Id'', type = ''number'',
                isOptional = False, isArray = False, isRelation = True\<rparr>))
         \<and> (kind \<in> {''OneToMany'', ''ManyToMany''} \<longrightarrow>
              lineField line = Inr (Some \<lparr>name = toLowerCase c # cs @ ''Ids'', type = ''number'',
                isOptional = False, isArray = True, isRelation = True\<rparr>))"
proof -
  from rel_match_groups[OF assms] obtain kind target where
    g: "group relMatch 1 = Inr kind" "group relMatch 2 = Inr target"
       "kind \<in> {''ManyToOne'', ''OneToMany'', ''ManyToMany'', ''OneToOne''}" "target \<noteq> []"
    by blast
  from g(4) obtain c cs where t: "target = c # cs" by (cases target) auto
  have "kind \<in> {''ManyToOne'', ''OneToOne''} \<Longrightarrow>
      lineField line = Inr (Some \<lparr>name = toLowerCase c # cs @ ''Id'', type = ''number'',
                isOptional = False, isArray = False, isRelation = True\<rparr>)"
    using assms g(1,2) t by (auto simp: lineField_def relationField_def lowerFirst_def)
  moreover have "kind \<in> {''OneToMany'', ''ManyToMany''} \<Longrightarrow>
      lineField line = Inr (Some \<lparr>name = toLowerCase c # cs @ ''Ids'', type = ''number'',
                isOptional = False, isArray = True, isRelation = True\<rparr>)"
    using assms g(1,2) t by (auto simp: lineField_def relationField_def lowerFirst_def)
  ultimately show ?thesis using g(1,2,3) t by (intro exI[of _ kind] exI[of _ c] exI[of _ cs]) auto
qed

text \<open>C5 at one annotation of each multiplicity.\<close>

theorem relation_field_name_witness:
  "lineField ''@ManyToOne(() => Client, (c) => c.orders)'' =
     Inr (Some \<lparr>name = ''clientId'', type = ''number'', isOptional = False, isArray = False,
                isRelation = True\<rparr>)
   \<and> lineField ''@OneToMany(() => OrderItem, (i) => i.order)'' =
     Inr (Some \<lparr>name = ''orderItemIds'', type = ''number'', isOptional = False, isArray = True,
                isRelation = True\<rparr>)"
proof -
  have m1: "match False rel_rx ''@ManyToOne(() => Client, (c) => c.orders)'' =
      Some [(2, ''Client''), (1, ''ManyToOne'')]"
    by code_simp
  have m2: "match False rel_rx ''@OneToMany(() => OrderItem, (i) => i.order)'' =
      Some [(2, ''OrderItem''), (1, ''OneToMany'')]"
    by code_simp
  have l: "toLowerCase CHR ''C'' = CHR ''c''" "toLowerCase CHR ''O'' = CHR ''o''"
    by code_simp+
  from relation_field_name[OF m1] l(1)
  have a: "lineField ''@ManyToOne(() => Client, (c) => c.orders)'' =
     Inr (Some \<lparr>name = ''clientId'', type = ''number'', isOptional = False, isArray = False,
                isRelation = True\<rparr>)"
    by (auto simp: group_def)
  from relation_field_name[OF m2] l(2)
  have b: "lineField ''@OneToMany(() => OrderItem, (i) => i.order)'' =
     Inr (Some \<lparr>name = ''orderItemIds'', type = ''number'', isOptional = False, isArray = True,
                isRelation = True\<rparr>)"
    by (auto simp: group_def)
  from a b show ?thesis by simp
qed

subsection \<open>C6: one presence rule\<close>

text \<open>
  C6. Whatever the property, exactly one of its validator lines is a presence rule:
  IsOptional when the property is optional (not required), IsNotEmpty otherwise. So the
  two never stand together and one of them always stands.
\<close>

theorem one_presence_rule:
  "filter is_presence (validators prop) =
     [if isOptional prop then IsOptional else IsNotEmpty (name prop)]"
  by (simp add: validators_def)

subsection \<open>C7: relations first\<close>

text \<open>
  C7. When \<open>relationField\<close> finds a relation in a trimmed line, the loop body pushes that
  property and goes on to the next line: what the property pattern would find in the
  same line plays no part.
\<close>

theorem relation_line_skips_property_pattern:
  assumes "relationField (trim l) = Inr (Some rel)"
  shows "lineField (trim l) = Inr (Some rel)
       \<and> parseLoop (l # ls) props = parseLoop ls (props @ [rel])"
  using assms by (simp add: lineField_def)

text \<open>
  C7 at a line that holds an annotation and a declaration: the property pattern alone
  would find \<open>cliente\<close>, and the loop pushes the relation field only.
\<close>

theorem relation_line_skips_property_pattern_witness:
  "propField (trim ''  @ManyToOne(() => Client) cliente: Client;'') =
     Inr (Some \<lparr>name = ''cliente'', type = ''any'', isOptional = False, isArray = False,
                isRelation = False\<rparr>)
   \<and> parseLoop [''  @ManyToOne(() => Client) cliente: Client;''] [] =
     Inr [\<lparr>name = ''clientId'', type = ''number'', isOptional = False, isArray = False,
           isRelation = True\<rparr>]"
proof -
  have h: "relationField (trim ''  @ManyToOne(() => Client) cliente: Client;'') =
     Inr (Some \<lparr>name = ''clientId'', type = ''number'', isOptional = False, isArray = False,
                isRelation = True\<rparr>)"
    by code_simp
  have p: "propField (trim ''  @ManyToOne(() => Client) cliente: Client;'') =
     Inr (Some \<lparr>name = ''cliente'', type = ''any'', isOptional = False, isArray = False,
                isRelation = False\<rparr>)"
    by code_simp
  from relation_line_skips_property_pattern[OF h, of "[]" "[]"] p show ?thesis by simp
qed

subsection \<open>C8: the extractor never fails\<close>

text \<open>
  C8. For every text the extractor returns a list of properties and no error (every
  function of the model is total, and \<open>Inr\<close> is the return without an exception). A
  line that matches neither pattern contributes nothing; the result is the result on
  the matched lines alone; it is empty exactly when no line is matched; and on the
  empty result the caller warns and skips the file, where otherwise it goes on to
  generate.
\<close>

theorem extractor_never_fails:
  "\<exists>props. parseProps entityContent = Inr props
     \<and> parseLoop (filter (\<lambda>l. matched (trim l)) (split_nl entityContent)) [] = Inr props
     \<and> (props = [] \<longleftrightarrow> (\<forall>l \<in> set (split_nl entityContent). \<not> matched (trim l)))
     \<and> forEach_entityFile entityContent =
         Inr (if props = [] then Skipped else Generated (dtoContent props))
     \<and> (\<not> matched line \<longrightarrow> lineField line = Inr None)"
proof -
  let ?f = "\<lambda>l. fieldOf (trim l)"
  let ?props = "List.map_filter ?f (split_nl entityContent)"
  have p: "parseProps entityContent = Inr ?props"
    by (simp add: parseProps_def parseLoop_eq)
  have "parseLoop (filter (\<lambda>l. matched (trim l)) (split_nl entityContent)) [] =
      Inr (List.map_filter ?f (filter (\<lambda>l. ?f l \<noteq> None) (split_nl entityContent)))"
    by (simp only: parseLoop_eq filter_matched append_Nil)
  then have q: "parseLoop (filter (\<lambda>l. matched (trim l)) (split_nl entityContent)) [] = Inr ?props"
    by (simp only: map_filter_filter)
  have "fieldOf l = None \<longleftrightarrow> \<not> matched l" for l
    using fieldOf_matched[of l] by blast
  then have e: "?props = [] \<longleftrightarrow> (\<forall>l \<in> set (split_nl entityContent). \<not> matched (trim l))"
    by (simp add: map_filter_Nil_iff)
  have f: "forEach_entityFile entityContent =
         Inr (if ?props = [] then Skipped else Generated (dtoContent ?props))"
    by (simp add: forEach_entityFile_def p)
  have n: "\<not> matched line \<longrightarrow> lineField line = Inr None"
    using fieldOf_matched[of line] by (auto simp: lineField_Inr)
  from p q e f n show ?thesis by blast
qed

text \<open>
  C8 at a text of comments and method signatures, which is skipped, and at a text with
  one declaration among lines that match nothing.
\<close>

theorem extractor_never_fails_witness:
  "parseProps ''// an entity without fields\<newline>  describe(): string {\<newline>    return 1\<newline>  }'' = Inr []
   \<and> forEach_entityFile ''// an entity without fields\<newline>  describe(): string {\<newline>    return 1\<newline>  }''
       = Inr Skipped
   \<and> parseProps ''export class User {\<newline>  @Column()\<newline>  id: number;\<newline>  !!! broken ???\<newline>}'' =
       Inr [\<lparr>name = ''id'', type = ''number'', isOptional = False, isArray = False,
             isRelation = False\<rparr>]"
proof -
  let ?C0 = "''// an entity without fields\<newline>  describe(): string {\<newline>    return 1\<newline>  }''"
  let ?C1 = "''export class User {\<newline>  @Column()\<newline>  id: number;\<newline>  !!! broken ???\<newline>}''"
  have h: "\<forall>l \<in> set (split_nl ?C0). \<not> matched (trim l)"
    by code_simp
  from extractor_never_fails[of ?C0] h
  have a: "parseProps ?C0 = Inr [] \<and> forEach_entityFile ?C0 = Inr Skipped"
    by auto
  have g: "filter (\<lambda>l. matched (trim l)) (split_nl ?C1) = [''  id: number;'']"
    by code_simp
  have k: "parseLoop [''  id: number;''] [] =
       Inr [\<lparr>name = ''id'', type = ''number'', isOptional = False, isArray = False,
             isRelation = False\<rparr>]"
    by code_simp
  from extractor_never_fails[of ?C1] g k
  have b: "parseProps ?C1 =
       Inr [\<lparr>name = ''id'', type = ''number'', isOptional = False, isArray = False,
             isRelation = False\<rparr>]"
    by auto
  from a b show ?thesis by simp
qed

subsection \<open>C9: the order of the fields\<close>

text \<open>
  C9. For every text, the properties the extractor returns are the fields of the matched
  lines, one for each matched line and in the order of the lines, repeated names
  included. The mapper turns them, one by one and in the same order, into the generated
  text: read line by line, that text is, for the first property, then the second and so
  on, the decorator line of the property, its validator lines, its declaration and an
  empty line. So every matched line has exactly one block in the output, at the place
  of the line among the matched lines.
\<close>

theorem fields_in_line_order:
  "\<exists>props. parseProps entityContent = Inr props
     \<and> map fieldOf (filter matched (map trim (split_nl entityContent))) = map Some props
     \<and> forEach_entityFile entityContent =
         Inr (if props = [] then Skipped else Generated (dtoContent props))
     \<and> split_nl (dtoContent props) =
         concat (map (\<lambda>p. map render_decorator (decorators p)
                          @ map render_validator (validators p)
                          @ [''  '' @ name p @ '': '' @ type p
                               @ (if isArray p then ''[]'' else []) @ '';'', []])
                     props) @ [[]]"
proof -
  let ?ls = "map trim (split_nl entityContent)"
  let ?props = "List.map_filter fieldOf ?ls"
  have p: "parseProps entityContent = Inr ?props"
    by (simp add: parseProps_def parseLoop_eq map_filter_map)
  have "filter matched ?ls = filter (\<lambda>l. fieldOf l \<noteq> None) ?ls"
    by (simp only: fieldOf_matched)
  then have m: "map fieldOf (filter matched ?ls) = map Some ?props"
    by (simp only: map_filter_Some)
  have f: "forEach_entityFile entityContent =
         Inr (if ?props = [] then Skipped else Generated (dtoContent ?props))"
    by (simp add: forEach_entityFile_def p)
  have "\<forall>q \<in> set ?props. CHR ''\<newline>'' \<notin> set (name q) \<and> CHR ''\<newline>'' \<notin> set (type q)"
  proof
    fix q assume "q \<in> set ?props"
    then obtain l where "fieldOf l = Some q"
      by (auto simp: List.map_filter_def)
    then have "lineField l = Inr (Some q)" by (simp add: lineField_Inr)
    then show "CHR ''\<newline>'' \<notin> set (name q) \<and> CHR ''\<newline>'' \<notin> set (type q)"
      by (rule lineField_no_newline)
  qed
  from dtoContent_lines[OF this] p m f show ?thesis by blast
qed

text \<open>
  C9 at a text that declares the name \<open>id\<close> twice, around a comment and a relation:
  three matched lines, three properties, and three declarations in the generated text,
  in that order.
\<close>

theorem fields_in_line_order_witness:
  "filter matched (map trim (split_nl ''id: number;\<newline>// note\<newline>@OneToMany(() => Tag)\<newline>id: string;''))
     = [''id: number;'', ''@OneToMany(() => Tag)'', ''id: string;'']
   \<and> parseProps ''id: number;\<newline>// note\<newline>@OneToMany(() => Tag)\<newline>id: string;'' =
       Inr [\<lparr>name = ''id'', type = ''number'', isOptional = False, isArray = False,
             isRelation = False\<rparr>,
            \<lparr>name = ''tagIds'', type = ''number'', isOptional = False, isArray = True,
             isRelation = True\<rparr>,
            \<lparr>name = ''id'', type = ''string'', isOptional = False, isArray = False,
             isRelation = False\<rparr>]
   \<and> filter (\<lambda>l. l \<noteq> [] \<and> last l = CHR '';'')
         (split_nl (dtoContent
           [\<lparr>name = ''id'', type = ''number'', isOptional = False, isArray = False,
             isRelation = False\<rparr>,
            \<lparr>name = ''tagIds'', type = ''number'', isOptional = False, isArray = True,
             isRelation = True\<rparr>,
            \<lparr>name = ''id'', type = ''string'', isOptional = False, isArray = False,
             isRelation = False\<rparr>]))
       = [''  id: number;'', ''  tagIds: number[];'', ''  id: string;'']
   \<and> length (split_nl (dtoContent
           [\<lparr>name = ''id'', type = ''number'', isOptional = False, isArray = False,
             isRelation = False\<rparr>,
            \<lparr>name = ''tagIds'', type = ''number'', isOptional = False, isArray = True,
             isRelation = True\<rparr>,
            \<lparr>name = ''id'', type = ''string'', isOptional = False, isArray = False,
             isRelation = False\<rparr>])) = 18"
proof -
  let ?C = "''id: number;\<newline>// note\<newline>@OneToMany(() => Tag)\<newline>id: string;''"
  let ?ps = "[\<lparr>name = ''id'', type = ''number'', isOptional = False, isArray = False,
             isRelation = False\<rparr>,
            \<lparr>name = ''tagIds'', type = ''number'', isOptional = False, isArray = True,
             isRelation = True\<rparr>,
            \<lparr>name = ''id'', type = ''string'', isOptional = False, isArray = False,
             isRelation = False\<rparr>]"
  have g: "filter matched (map trim (split_nl ?C))
     = [''id: number;'', ''@OneToMany(() => Tag)'', ''id: string;'']"
    by code_simp
  have k: "map fieldOf [''id: number;'', ''@OneToMany(() => Tag)'', ''id: string;''] =
     map Some ?ps"
    by code_simp
  from fields_in_line_order[of ?C] obtain props where
    p: "parseProps ?C = Inr props"
       "map fieldOf (filter matched (map trim (split_nl ?C))) = map Some props"
       "split_nl (dtoContent props) =
         concat (map (\<lambda>p. map render_decorator (decorators p)
                          @ map render_validator (validators p)
                          @ [''  '' @ name p @ '': '' @ type p
                               @ (if isArray p then ''[]'' else []) @ '';'', []])
                     props) @ [[]]"
    by blast
  from p(2) g k have "map Some props = map Some ?ps"
    by simp
  then have e: "props = ?ps"
    by (simp only: inj_map_eq_map[OF inj_Some])
  have d: "filter (\<lambda>l. l \<noteq> [] \<and> last l = CHR '';'')
         (concat (map (\<lambda>p. map render_decorator (decorators p)
                          @ map render_validator (validators p)
                          @ [''  '' @ name p @ '': '' @ type p
                               @ (if isArray p then ''[]'' else []) @ '';'', []])
                     ?ps) @ [[]])
       = [''  id: number;'', ''  tagIds: number[];'', ''  id: string;'']"
    by code_simp
  have n: "length (concat (map (\<lambda>p. map render_decorator (decorators p)
                          @ map render_validator (validators p)
                          @ [''  '' @ name p @ '': '' @ type p
                               @ (if isArray p then ''[]'' else []) @ '';'', []])
                     ?ps) @ [[]]) = 18"
    by code_simp
  from p(1) p(3) e g d n show ?thesis by simp
qed

subsection \<open>C10: a fragment inside a comment\<close>

text \<open>
  C10. The comment line \<open>// legacy: id: number;\<close> is not a property declaration, and
  the extractor emits a field for it all the same: the property pattern matches from the
  word \<open>legacy\<close> on, with \<open>legacy\<close> as the name and \<open>id: number\<close> as the declared type.
  The loop of the generator without validators does the same.
\<close>

theorem comment_line_yields_field:
  "match False prop_rx ''// legacy: id: number;'' = Some [(2, ''id: number''), (1, ''legacy'')]
   \<and> parseProps ''// legacy: id: number;'' =
     Inr [\<lparr>name = ''legacy'', type = ''number'', isOptional = False, isArray = False,
           isRelation = False\<rparr>]
   \<and> parseLoop_basic (split_nl ''// legacy: id: number;'') [] =
     Inr [\<lparr>name_b = ''legacy'', typeRaw = ''id: number'', isRelation_b = False,
           isArray_b = False\<rparr>]"
  by code_simp

end
